theory Spec2Isabelle
  imports Main "HOL-Library.Sublist"
begin

section \<open>Strings and characters\<close>

text \<open>
  A JavaScript string is a sequence of UTF-16 code units. It is modelled as a
  \<^typ>\<open>string\<close>, each \<^typ>\<open>char\<close> standing for the code unit of the same number
  (0 to 255). In that range the line terminators are LF and CR, and the characters that
  \<^verbatim>\<open>String.prototype.trim\<close> strips are TAB, LF, VT, FF, CR, SPACE and NBSP.
\<close>

abbreviation backslash :: char where
  "backslash \<equiv> CHR 0x5C"

abbreviation hash :: char where
  "hash \<equiv> CHR ''#''"

definition isLineTerminator :: "char \<Rightarrow> bool" where
  "isLineTerminator c \<longleftrightarrow> c = CHR 0x0A \<or> c = CHR 0x0D"

definition isWhiteSpace :: "char \<Rightarrow> bool" where
  "isWhiteSpace c \<longleftrightarrow>
     c = CHR 0x09 \<or> c = CHR 0x0A \<or> c = CHR 0x0B \<or> c = CHR 0x0C \<or> c = CHR 0x0D \<or>
     c = CHR 0x20 \<or> c = CHR 0xA0"

text \<open>\<^verbatim>\<open>\d\<close> without the unicode flag: the ten ASCII digits.\<close>

definition isDigit :: "char \<Rightarrow> bool" where
  "isDigit c \<longleftrightarrow> c \<in> set ''0123456789''"

text \<open>The character class \<^verbatim>\<open>[.*+?^${}()|[\]\\]\<close> of the escaping step.\<close>

definition isSyntaxCharacter :: "char \<Rightarrow> bool" where
  "isSyntaxCharacter c \<longleftrightarrow> c \<in> set ''.*+?^${}()|[]'' \<or> c = backslash"

text \<open>\<^verbatim>\<open>String.prototype.trim\<close>.\<close>

definition trim :: "string \<Rightarrow> string" where
  "trim s = rev (dropWhile isWhiteSpace (rev (dropWhile isWhiteSpace s)))"

text \<open>\<^verbatim>\<open>`${n}`\<close> for a non-negative integer: its decimal digits.\<close>

definition digitChar :: "nat \<Rightarrow> char" where
  "digitChar d = ''0123456789'' ! d"

fun toString :: "nat \<Rightarrow> string" where
  "toString n = (if n < 10 then [digitChar n] else toString (n div 10) @ [digitChar (n mod 10)])"

declare toString.simps [simp del]

section \<open>The regular expressions the matcher builds\<close>

text \<open>
  \<^verbatim>\<open>template.replace(/([.*+?^${}()|[\]\\])/g, '\\$1')\<close>: a backslash before every
  syntax character.
\<close>

fun escapeTemplate :: "string \<Rightarrow> string" where
  "escapeTemplate [] = []"
| "escapeTemplate (c # cs) =
     (if isSyntaxCharacter c then backslash # c # escapeTemplate cs
      else c # escapeTemplate cs)"

text \<open>
  \<^verbatim>\<open>s.replace(new RegExp(pat, 'g'), rep)\<close> for a pattern of literal characters
  (here \<^verbatim>\<open>#\<close> and digits) and a replacement without \<^verbatim>\<open>$\<close>: every occurrence,
  left to right, without overlap.
\<close>

fun replaceAll :: "string \<Rightarrow> string \<Rightarrow> string \<Rightarrow> string" where
  "replaceAll pat rep [] = []"
| "replaceAll pat rep (c # cs) =
     (if prefix pat (c # cs) then rep @ replaceAll pat rep (drop (length pat - 1) cs)
      else c # replaceAll pat rep cs)"

text \<open>
  One call of \<^verbatim>\<open>placeholderRegex.exec(template)\<close> with \<^verbatim>\<open>/\#(\d+)/g\<close>: the argument
  is the text from \<^verbatim>\<open>lastIndex\<close> on; the result is the digits of the first
  \<^verbatim>\<open>#\<close> followed by a digit (the longest run) and the text after the match.
\<close>

fun execPlaceholder :: "string \<Rightarrow> (string \<times> string) option" where
  "execPlaceholder [] = None"
| "execPlaceholder (c # cs) =
     (if c = hash \<and> takeWhile isDigit cs \<noteq> []
      then Some (takeWhile isDigit cs, dropWhile isDigit cs)
      else execPlaceholder cs)"

text \<open>
  The \<^verbatim>\<open>while ((match = placeholderRegex.exec(template)) !== null)\<close> loop: the state is
  the text still to scan, \<^verbatim>\<open>placeholders\<close> and \<^verbatim>\<open>escapedTemplate\<close>.
\<close>

function placeholderLoop :: "string \<Rightarrow> string list \<Rightarrow> string \<Rightarrow> string list \<times> string" where
  "placeholderLoop rest placeholders escapedTemplate =
     (case execPlaceholder rest of
        None \<Rightarrow> (placeholders, escapedTemplate)
      | Some (digits, rest') \<Rightarrow>
          placeholderLoop rest' (placeholders @ [hash # digits])
            (replaceAll (hash # digits) ''(.*?)'' escapedTemplate))"
  by pat_completeness auto
termination
proof (relation "measure (\<lambda>(rest, _, _). length rest)")
  show "wf (measure (\<lambda>(rest :: string, _ :: string list, _ :: string). length rest))"
    by simp
next
  fix rest :: string and placeholders :: "string list" and escapedTemplate :: string
    and x2 digits rest'
  assume found: "execPlaceholder rest = Some x2" and pair: "(digits, rest') = x2"
  have shorter: "execPlaceholder s = Some (d, r) \<Longrightarrow> length r < length s" for s d r
  proof (induction s)
    case Nil
    then show ?case by simp
  next
    case (Cons c cs)
    have "length (dropWhile isDigit cs) \<le> length cs"
      by (rule length_dropWhile_le)
    with Cons show ?case
      by (auto split: if_splits)
  qed
  from found pair have "length rest' < length rest"
    by (auto dest: shorter)
  then show "((rest', placeholders @ [hash # digits],
               replaceAll (hash # digits) ''(.*?)'' escapedTemplate),
              rest, placeholders, escapedTemplate)
             \<in> measure (\<lambda>(rest, _, _). length rest)"
    by simp
qed

declare placeholderLoop.simps [simp del]

text \<open>
  The patterns handed to \<^verbatim>\<open>new RegExp\<close> are made of escaped syntax characters, other
  characters standing for themselves, the group \<^verbatim>\<open>(.*?)\<close> and the two anchors.
  \<^verbatim>\<open>newRegExp\<close> parses that fragment; \<open>None\<close> is a pattern outside it.
\<close>

datatype regexNode = Char char | LazyGroup | AssertStart | AssertEnd

fun newRegExp :: "string \<Rightarrow> regexNode list option" where
  "newRegExp [] = Some []"
| "newRegExp (c # cs) =
     (if c = backslash then
        (case cs of
           [] \<Rightarrow> None
         | d # ds \<Rightarrow>
             if isSyntaxCharacter d then map_option ((#) (Char d)) (newRegExp ds) else None)
      else if c = CHR ''^'' then map_option ((#) AssertStart) (newRegExp cs)
      else if c = CHR ''$'' then map_option ((#) AssertEnd) (newRegExp cs)
      else if c = CHR ''('' then
        (if prefix ''.*?)'' cs then map_option ((#) LazyGroup) (newRegExp (drop 4 cs))
         else None)
      else if isSyntaxCharacter c then None
      else map_option ((#) (Char c)) (newRegExp cs))"

text \<open>
  Backtracking matching as ECMAScript defines it, in continuation style. A match
  result is the end index and the captures of the groups, in order.
  \<^verbatim>\<open>lazyDot k i s cap\<close> is \<^verbatim>\<open>(.*?)\<close> at index \<open>i\<close> before the input \<open>s\<close>, having
  captured \<open>cap\<close> so far: it first tries the rest of the pattern \<open>k\<close>, and only when
  that fails takes one more character, which must not be a line terminator.
\<close>

fun lazyDot :: "(nat \<Rightarrow> string \<Rightarrow> (nat \<times> string list) option)
    \<Rightarrow> nat \<Rightarrow> string \<Rightarrow> string \<Rightarrow> (nat \<times> string list) option" where
  "lazyDot k i [] cap = map_option (\<lambda>(e, caps). (e, cap # caps)) (k i [])"
| "lazyDot k i (x # xs) cap =
     (case k i (x # xs) of
        Some (e, caps) \<Rightarrow> Some (e, cap # caps)
      | None \<Rightarrow> if isLineTerminator x then None else lazyDot k (Suc i) xs (cap @ [x]))"

primrec matchNodes :: "regexNode list \<Rightarrow> nat \<Rightarrow> string \<Rightarrow> (nat \<times> string list) option" where
  "matchNodes [] i s = Some (i, [])"
| "matchNodes (n # ns) i s =
     (case n of
        Char c \<Rightarrow>
          (case s of [] \<Rightarrow> None | x # xs \<Rightarrow> if x = c then matchNodes ns (Suc i) xs else None)
      | LazyGroup \<Rightarrow> lazyDot (matchNodes ns) i s []
      | AssertStart \<Rightarrow> if i = 0 then matchNodes ns i s else None
      | AssertEnd \<Rightarrow> if s = [] then matchNodes ns i s else None)"

text \<open>
  \<^verbatim>\<open>RegExpBuiltinExec\<close> for a regular expression without flags: the first start index,
  from 0 on, at which the pattern matches.
\<close>

fun execFrom :: "regexNode list \<Rightarrow> nat \<Rightarrow> string \<Rightarrow> (nat \<times> nat \<times> string list) option" where
  "execFrom nodes i [] = map_option (\<lambda>(e, caps). (i, e, caps)) (matchNodes nodes i [])"
| "execFrom nodes i (x # xs) =
     (case matchNodes nodes i (x # xs) of
        Some (e, caps) \<Rightarrow> Some (i, e, caps)
      | None \<Rightarrow> execFrom nodes (Suc i) xs)"

text \<open>
  \<^verbatim>\<open>inputString.match(regex)\<close>: \<open>None\<close> is \<^verbatim>\<open>null\<close>; the array holds the matched text
  at index 0 and the captures after it.
\<close>

definition stringMatch :: "regexNode list \<Rightarrow> string \<Rightarrow> string list option" where
  "stringMatch regex inputString =
     map_option (\<lambda>(b, e, caps). take (e - b) (drop b inputString) # caps)
       (execFrom regex 0 inputString)"

section \<open>The template matcher\<close>

datatype exn = Error string | SyntaxError

text \<open>Reading \<^verbatim>\<open>xs[i]\<close>: \<open>None\<close> is \<^verbatim>\<open>undefined\<close>.\<close>

definition nthOpt :: "'a list \<Rightarrow> nat \<Rightarrow> 'a option" where
  "nthOpt xs i = (if i < length xs then Some (xs ! i) else None)"

text \<open>
  \<^verbatim>\<open>placeholders.forEach((placeholder, index) => output[placeholder] = matchResult[index + 1])\<close>.
  The table \<^verbatim>\<open>output\<close> is a map; a key that holds \<^verbatim>\<open>undefined\<close> reads like an
  absent key.
\<close>

fun fillOutput :: "string list \<Rightarrow> nat \<Rightarrow> string list \<Rightarrow> (string \<rightharpoonup> string) \<Rightarrow> (string \<rightharpoonup> string)" where
  "fillOutput [] index matchResult output = output"
| "fillOutput (placeholder # rest) index matchResult output =
     fillOutput rest (Suc index) matchResult
       (output(placeholder := nthOpt matchResult (index + 1)))"

text \<open>
  \<^verbatim>\<open>while (result.length && result[result.length - 1] === undefined) result.pop()\<close>.
\<close>

function popUndefined :: "'a option list \<Rightarrow> 'a option list" where
  "popUndefined result =
     (if result \<noteq> [] \<and> last result = None then popUndefined (butlast result) else result)"
  by pat_completeness auto
termination
  by (relation "measure length") auto

declare popUndefined.simps [simp del]

definition extractArgumentsWithOrder :: "string \<Rightarrow> string \<Rightarrow> exn + string option list option" where
  "extractArgumentsWithOrder template inputString =
     (if template = [] then Inl (Error ''No template provided'')
      else if inputString = [] then Inr None
      else
        (case placeholderLoop template [] (escapeTemplate template) of
           (placeholders, escapedTemplate) \<Rightarrow>
             (case newRegExp (''^'' @ escapedTemplate @ ''$'') of
                None \<Rightarrow> Inl SyntaxError
              | Some regex \<Rightarrow>
                  (case stringMatch regex inputString of
                     None \<Rightarrow> Inr None
                   | Some matchResult \<Rightarrow>
                       Inr (Some (popUndefined
                         (map (\<lambda>i. map_option trim
                                 (fillOutput placeholders 0 matchResult Map.empty
                                    (hash # toString (i + 1))))
                            [0..<8])))))))"

section \<open>Macro nodes\<close>

text \<open>
  The values the field \<^verbatim>\<open>_macroArgs: null | string\<close> and the option \<^verbatim>\<open>args\<close> hold at run
  time. \<open>Undefined\<close> is what \<^verbatim>\<open>fromJson\<close> passes on when the snapshot has no \<^verbatim>\<open>args\<close>.
\<close>

datatype jsArgs = Undefined | Null | Str string

text \<open>\<^verbatim>\<open>if (x)\<close> on such a value: a string is true when it is not empty.\<close>

definition truthy :: "jsArgs \<Rightarrow> bool" where
  "truthy x = (case x of Str s \<Rightarrow> s \<noteq> [] | _ \<Rightarrow> False)"

text \<open>\<^verbatim>\<open>x ?? ''\<close>.\<close>

definition orEmpty :: "jsArgs \<Rightarrow> string" where
  "orEmpty x = (case x of Str s \<Rightarrow> s | _ \<Rightarrow> [])"

text \<open>
  A \<^verbatim>\<open>Style\<close> object: attribute names to values. The type is declared outside the
  sources at hand; an attribute is true when it is present and not empty.
\<close>

type_synonym style = "string \<rightharpoonup> string"

record toLatexOptions =
  expandMacro :: bool
  defaultMode :: string

text \<open>The \<^verbatim>\<open>options\<close> argument of the constructor; \<open>None\<close> is an omitted field.\<close>

record 'b macroOptions =
  opt_expand :: "bool option"
  opt_args :: jsArgs
  opt_body :: 'b
  opt_captureSelection :: "bool option"
  opt_style :: style
  opt_def :: string

text \<open>
  The fields of a \<^verbatim>\<open>MacroAtom\<close>. The first five belong to the base class \<^verbatim>\<open>Atom\<close>,
  which sets \<^verbatim>\<open>type\<close>, \<^verbatim>\<open>command\<close> and \<^verbatim>\<open>style\<close> from the arguments of \<^verbatim>\<open>super\<close>.
  The body has an abstract type \<open>'b\<close>.
\<close>

record 'b macroAtom =
  type :: string
  command :: string
  style :: style
  body :: 'b
  captureSelection :: "bool option"
  macroArgs :: jsArgs
  expand :: bool
  def :: string

definition MacroAtom :: "string \<Rightarrow> 'b macroOptions \<Rightarrow> 'b macroAtom" where
  "MacroAtom macro options =
     \<lparr> type = ''macro'',
       command = macro,
       style = opt_style options,
       body = opt_body options,
       captureSelection =
         (case opt_captureSelection options of
            None \<Rightarrow> if truthy (opt_args options) then Some False else Some True
          | Some b \<Rightarrow> Some b),
       macroArgs = opt_args options,
       expand = (case opt_expand options of None \<Rightarrow> False | Some b \<Rightarrow> b),
       def = opt_def options \<rparr>"

text \<open>
  A snapshot (\<^verbatim>\<open>AtomJson\<close>). \<^verbatim>\<open>type\<close>, \<^verbatim>\<open>command\<close>, \<^verbatim>\<open>style\<close> and \<^verbatim>\<open>body\<close> are written by the
  base class; the other keys are optional, \<open>None\<close> and \<open>Undefined\<close> being an absent key.
\<close>

record 'b atomJson =
  j_type :: string
  j_command :: string
  j_style :: style
  j_body :: 'b
  j_expand :: "bool option"
  j_captureSelection :: "bool option"
  j_args :: jsArgs
  j_def :: "string option"


text \<open>\<^verbatim>\<open>toJson\<close>; the second argument is the result of \<^verbatim>\<open>super.toJson()\<close>.\<close>

definition toJson :: "'b macroAtom \<Rightarrow> 'b atomJson \<Rightarrow> 'b atomJson" where
  "toJson this options0 =
     (let options1 = (if expand this then options0\<lparr>j_expand := Some True\<rparr> else options0);
          options2 = (if captureSelection this \<noteq> None
                      then options1\<lparr>j_captureSelection := captureSelection this\<rparr>
                      else options1);
          options3 = (if truthy (macroArgs this) then options2\<lparr>j_args := macroArgs this\<rparr>
                      else options2)
      in options3\<lparr>j_def := Some (def this)\<rparr>)"

text \<open>
  \<^verbatim>\<open>_serialize\<close>; \<^verbatim>\<open>bodyToLatex\<close> is the base class's serialization of the body.
\<close>

definition serialize :: "(toLatexOptions \<Rightarrow> 'b \<Rightarrow> string) \<Rightarrow> 'b macroAtom \<Rightarrow> toLatexOptions \<Rightarrow> string" where
  "serialize bodyToLatex this options =
     (if expandMacro options \<and> expand this then bodyToLatex options (body this)
      else command this @ orEmpty (macroArgs this))"

text \<open>
  \<^verbatim>\<open>applyStyle\<close>: \<^verbatim>\<open>allowedStyle\<close> is the object built from \<^verbatim>\<open>{}\<close>, and
  \<^verbatim>\<open>superApplyStyle\<close> the routine of the base class it is handed to.
\<close>

definition attrTruthy :: "string option \<Rightarrow> bool" where
  "attrTruthy v = (case v of None \<Rightarrow> False | Some s \<Rightarrow> s \<noteq> [])"

definition allowedStyle :: "style \<Rightarrow> style" where
  "allowedStyle style0 =
     (let allowed0 = Map.empty;
          allowed1 = (if attrTruthy (style0 ''color'')
                      then allowed0(''color'' := style0 ''color'') else allowed0)
      in if attrTruthy (style0 ''backgroundColor'')
         then allowed1(''backgroundColor'' := style0 ''backgroundColor'') else allowed1)"

definition applyStyle :: "(style \<Rightarrow> 'o \<Rightarrow> 'b macroAtom \<Rightarrow> 'b macroAtom)
    \<Rightarrow> style \<Rightarrow> 'o \<Rightarrow> 'b macroAtom \<Rightarrow> 'b macroAtom" where
  "applyStyle superApplyStyle style0 options this =
     superApplyStyle (allowedStyle style0) options this"

text \<open>\<^verbatim>\<open>`{${arg || ''}}`\<close>.\<close>

definition braced :: "string option \<Rightarrow> string" where
  "braced arg = ''{'' @ (case arg of None \<Rightarrow> [] | Some s \<Rightarrow> s) @ ''}''"

text \<open>
  \<^verbatim>\<open>reloadArgs\<close>: the exception of the matcher passes through; otherwise the node is
  returned with its new \<^verbatim>\<open>_macroArgs\<close>.
\<close>

definition reloadArgs :: "(toLatexOptions \<Rightarrow> 'b \<Rightarrow> string) \<Rightarrow> 'b macroAtom \<Rightarrow> exn + 'b macroAtom" where
  "reloadArgs bodyToLatex this =
     (let bodyLatex = bodyToLatex \<lparr> expandMacro = False, defaultMode = ''math'' \<rparr> (body this)
      in case extractArgumentsWithOrder (def this) bodyLatex of
           Inl e \<Rightarrow> Inl e
         | Inr args \<Rightarrow>
             Inr (this\<lparr> macroArgs :=
               (case args of None \<Rightarrow> Null | Some as \<Rightarrow> Str (concat (map braced as))) \<rparr>))"

section \<open>The walk over the ancestors\<close>

text \<open>
  Nodes live in a store, at addresses. A cell holds the object, which is an instance of
  \<^verbatim>\<open>MacroAtom\<close> or of another class (of which only the \<^verbatim>\<open>type\<close> tag matters here), and
  the \<^verbatim>\<open>parent\<close> link of the base class.
\<close>

datatype 'b anyAtom = MacroAtomObj "'b macroAtom" | OtherAtom string

record 'b cell =
  obj :: "'b anyAtom"
  parent :: "nat option"

type_synonym 'b store = "nat \<Rightarrow> 'b cell"

text \<open>
  The outcome of a walk: the exception that ended it, if any, the store, and the
  addresses on which \<^verbatim>\<open>reloadArgs\<close> was called, in the order of the calls.
\<close>

record 'b walk =
  thrown :: "exn option"
  final :: "'b store"
  calls :: "nat list"

text \<open>
  \<^verbatim>\<open>reloadParentsMacros\<close>. The serialization of a body reads the store. The loop ends
  only when it reaches a node without parent, so the function is partial: \<open>None\<close> is
  a walk that never returns.
\<close>

partial_function (option) reloadParentsMacros ::
  "('b store \<Rightarrow> toLatexOptions \<Rightarrow> 'b \<Rightarrow> string) \<Rightarrow> nat option \<Rightarrow> 'b store \<Rightarrow> nat list
     \<Rightarrow> 'b walk option" where
  "reloadParentsMacros bodyToLatex parent0 \<sigma> log =
     (case parent0 of
        None \<Rightarrow> Some \<lparr> thrown = None, final = \<sigma>, calls = log \<rparr>
      | Some a \<Rightarrow>
          (case obj (\<sigma> a) of
             MacroAtomObj m \<Rightarrow>
               if type m = ''macro'' then
                 (case reloadArgs (bodyToLatex \<sigma>) m of
                    Inl e \<Rightarrow> Some \<lparr> thrown = Some e, final = \<sigma>, calls = log @ [a] \<rparr>
                  | Inr m' \<Rightarrow>
                      reloadParentsMacros bodyToLatex (parent (\<sigma> a))
                        (\<sigma>(a := (\<sigma> a)\<lparr> obj := MacroAtomObj m' \<rparr>)) (log @ [a]))
               else reloadParentsMacros bodyToLatex (parent (\<sigma> a)) \<sigma> log
           | OtherAtom t \<Rightarrow> reloadParentsMacros bodyToLatex (parent (\<sigma> a)) \<sigma> log))"

section \<open>Example nodes\<close>

text \<open>
  A node for the worked examples: its body is represented by the text the base class
  serializes it to, so that \<^verbatim>\<open>bodyToLatex\<close> is \<open>textOfBody\<close>.
\<close>

definition textOfBody :: "toLatexOptions \<Rightarrow> string \<Rightarrow> string" where
  "textOfBody options b = b"

definition exampleNode :: "string \<Rightarrow> jsArgs \<Rightarrow> string \<Rightarrow> string macroAtom" where
  "exampleNode template args bodyLatex =
     MacroAtom (backslash # ''foo'')
       \<lparr> opt_expand = None, opt_args = args, opt_body = bodyLatex,
         opt_captureSelection = None, opt_style = Map.empty, opt_def = template \<rparr>"



text \<open>
  The chain of \<^verbatim>\<open>parent\<close> links from a node to the root, if it has at most \<open>fuel\<close>
  nodes, and the nodes on which the walk calls \<^verbatim>\<open>reloadArgs\<close>.
\<close>

fun ancestorsWithin :: "nat \<Rightarrow> 'b store \<Rightarrow> nat option \<Rightarrow> nat list option" where
  "ancestorsWithin fuel \<sigma> None = Some []"
| "ancestorsWithin 0 \<sigma> (Some a) = None"
| "ancestorsWithin (Suc fuel) \<sigma> (Some a) =
     map_option ((#) a) (ancestorsWithin fuel \<sigma> (parent (\<sigma> a)))"

definition isMacroNode :: "'b store \<Rightarrow> nat \<Rightarrow> bool" where
  "isMacroNode \<sigma> a = (case obj (\<sigma> a) of MacroAtomObj m \<Rightarrow> type m = ''macro'' | OtherAtom t \<Rightarrow> False)"

text \<open>
  The tree \<^verbatim>\<open>root\<close> (at address 10), \<^verbatim>\<open>macroA\<close> (11), \<^verbatim>\<open>plainNode\<close> (12), \<^verbatim>\<open>macroB\<close> (13),
  \<^verbatim>\<open>editedLeaf\<close> (14), each the parent of the next.
\<close>

definition exampleTree :: "string store" where
  "exampleTree a =
     (if a = 11 then \<lparr> obj = MacroAtomObj (exampleNode ''#1+1'' (Str ''{x}'') ''y+1''), parent = Some 10 \<rparr>
      else if a = 12 then \<lparr> obj = OtherAtom ''group'', parent = Some 11 \<rparr>
      else if a = 13 then \<lparr> obj = MacroAtomObj (exampleNode ''#1'' (Str ''{x}'') ''y''), parent = Some 12 \<rparr>
      else if a = 14 then \<lparr> obj = OtherAtom ''mord'', parent = Some 13 \<rparr>
      else \<lparr> obj = OtherAtom ''root'', parent = None \<rparr>)"

definition storeTextOfBody :: "string store \<Rightarrow> toLatexOptions \<Rightarrow> string \<Rightarrow> string" where
  "storeTextOfBody \<sigma> options b = b"

section \<open>The expansion of a macro call\<close>






section \<open>Notions for the proofs\<close>

text \<open>
  The pattern under construction seen as a list of tokens: a character of the template,
  written with a backslash when it is a syntax character, or a group put in by a
  replacement. \<open>render\<close> gives the pattern text, \<open>replaceTok\<close> is the replacement of
  \<^verbatim>\<open>#\<close> and the digits \<open>k\<close> on tokens, and \<open>nodeOf\<close> the node a token parses to.
  \<open>digitRuns\<close> lists the digits of the placeholders of a template in order of
  occurrence, \<open>tokRuns\<close> does the same on tokens. \<open>templatePlaceholders\<close>,
  \<open>templateRegex\<close> and \<open>argumentsFrom\<close> name the intermediate values of
  \<open>extractArgumentsWithOrder\<close>: the array \<^verbatim>\<open>placeholders\<close>, the compiled \<^verbatim>\<open>regex\<close>
  and the array it returns for a match result. \<open>hasPlaceholder\<close> says that a
  \<^verbatim>\<open>#\<close> is followed by a digit somewhere. \<open>instTok\<close> is the text that tokens
  stand for when the groups capture the given strings in order, \<open>singleLine\<close> a
  string without line terminator, \<open>numbered n\<close> the placeholders \<^verbatim>\<open>#1\<close> to
  \<^verbatim>\<open>#n\<close> in this order, and \<open>startsWithDigit\<close> tokens that begin with a digit
  of the template.
\<close>

datatype tok = Lit char | Group

fun render :: "tok list \<Rightarrow> string" where
  "render [] = []"
| "render (Lit c # ts) = (if isSyntaxCharacter c then [backslash, c] else [c]) @ render ts"
| "render (Group # ts) = ''(.*?)'' @ render ts"

fun replaceTok :: "string \<Rightarrow> tok list \<Rightarrow> tok list" where
  "replaceTok k [] = []"
| "replaceTok k (t # ts) =
     (if t = Lit hash \<and> prefix (map Lit k) ts then Group # replaceTok k (drop (length k) ts)
      else t # replaceTok k ts)"

fun nodeOf :: "tok \<Rightarrow> regexNode" where
  "nodeOf (Lit c) = Char c"
| "nodeOf Group = LazyGroup"

fun digitRuns :: "string \<Rightarrow> string list" where
  "digitRuns [] = []"
| "digitRuns (c # cs) =
     (if c = hash \<and> takeWhile isDigit cs \<noteq> [] then [takeWhile isDigit cs] else [])
     @ digitRuns cs"



definition templateTokens :: "string \<Rightarrow> tok list" where
  "templateTokens template = fold replaceTok (digitRuns template) (map Lit template)"

definition templatePlaceholders :: "string \<Rightarrow> string list" where
  "templatePlaceholders template = fst (placeholderLoop template [] (escapeTemplate template))"

definition templateRegex :: "string \<Rightarrow> regexNode list option" where
  "templateRegex template =
     newRegExp (''^'' @ snd (placeholderLoop template [] (escapeTemplate template)) @ ''$'')"

definition argumentsFrom :: "string list \<Rightarrow> string list \<Rightarrow> string option list" where
  "argumentsFrom placeholders matchResult =
     popUndefined
       (map (\<lambda>i. map_option trim
               (fillOutput placeholders 0 matchResult Map.empty (hash # toString (i + 1))))
          [0..<8])"

fun hasPlaceholder :: "string \<Rightarrow> bool" where
  "hasPlaceholder (c # d # cs) \<longleftrightarrow> c = hash \<and> isDigit d \<or> hasPlaceholder (d # cs)"
| "hasPlaceholder cs \<longleftrightarrow> False"



definition numbered :: "nat \<Rightarrow> string list" where
  "numbered n = map (\<lambda>i. hash # toString (Suc i)) [0..<n]"


section \<open>Lemmas on the construction of the pattern and on matching\<close>

lemma escapeTemplate_render: "escapeTemplate t = render (map Lit t)"
  by (induction t) auto

lemma isDigit_not_syntax: "isDigit c \<Longrightarrow> \<not> isSyntaxCharacter c"
  by (auto simp: isDigit_def isSyntaxCharacter_def)

lemma isDigit_not_hash: "isDigit c \<Longrightarrow> c \<noteq> hash"
  by (auto simp: isDigit_def)

lemma hash_not_syntax: "\<not> isSyntaxCharacter hash"
  by (simp add: isSyntaxCharacter_def)

lemma render_append: "render (ts @ us) = render ts @ render us"
  by (induction ts rule: render.induct) auto

lemma render_digits: "\<forall>c\<in>set k. isDigit c \<Longrightarrow> render (map Lit k) = k"
  by (induction k) (auto simp: isDigit_not_syntax)

text \<open>A digit at the head of the rendered text is a digit token at the head of the tokens.\<close>

lemma isDigit_not_backslash: "isDigit c \<Longrightarrow> c \<noteq> backslash"
  by (auto simp: isDigit_def)

lemma isDigit_not_paren: "isDigit c \<Longrightarrow> c \<noteq> CHR ''(''"
  by (auto simp: isDigit_def)

lemma prefix_digits_render:
  "\<forall>c\<in>set k. isDigit c \<Longrightarrow> prefix k (render ts) \<longleftrightarrow> prefix (map Lit k) ts"
proof (induction k arbitrary: ts)
  case Nil
  then show ?case by simp
next
  case (Cons d k)
  then have d: "isDigit d" and k: "\<forall>c\<in>set k. isDigit c" by auto
  have IH: "prefix k (render us) \<longleftrightarrow> prefix (map Lit k) us" for us
    using Cons.IH k by blast
  show ?case
  proof (cases ts)
    case Nil
    then show ?thesis by simp
  next
    case ts: (Cons t ts')
    show ?thesis
    proof (cases t)
      case (Lit c)
      show ?thesis
      proof (cases "isSyntaxCharacter c")
        case True
        then have "d \<noteq> c" using d isDigit_not_syntax by blast
        then show ?thesis
          using ts Lit True isDigit_not_backslash [OF d] by simp
      next
        case False
        then show ?thesis
          using ts Lit IH [of ts'] by simp
      qed
    next
      case Group
      then show ?thesis
        using ts isDigit_not_paren [OF d] by simp
    qed
  qed
qed

lemma replaceAll_no_hash:
  "hash \<notin> set u \<Longrightarrow> replaceAll (hash # k) rep (u @ v) = u @ replaceAll (hash # k) rep v"
  by (induction u) auto

lemma replaceAll_render:
  assumes "\<forall>c\<in>set k. isDigit c"
  shows "replaceAll (hash # k) ''(.*?)'' (render ts) = render (replaceTok k ts)"
proof (induction ts rule: length_induct)
  case (1 ts)
  show ?case
  proof (cases ts)
    case Nil
    then show ?thesis by simp
  next
    case (Cons t ts')
    show ?thesis
    proof (cases "t = Lit hash")
      case True
      show ?thesis
      proof (cases "prefix (map Lit k) ts'")
        case True
        then obtain r where r: "ts' = map Lit k @ r"
          by (auto simp: prefix_def)
        have "length r < length ts" using Cons r by simp
        with 1 have IH: "replaceAll (hash # k) ''(.*?)'' (render r) = render (replaceTok k r)"
          by blast
        have "render ts = hash # k @ render r"
          using Cons \<open>t = Lit hash\<close> r assms
          by (simp add: hash_not_syntax render_append render_digits)
        moreover have "replaceTok k ts = Group # replaceTok k r"
          using Cons \<open>t = Lit hash\<close> r by simp
        ultimately show ?thesis using IH by simp
      next
        case False
        then have "\<not> prefix k (render ts')"
          using assms by (simp add: prefix_digits_render)
        moreover have "length ts' < length ts" using Cons by simp
        ultimately show ?thesis
          using Cons \<open>t = Lit hash\<close> False 1
          by (simp add: hash_not_syntax)
      qed
    next
      case False
      have "length ts' < length ts" using Cons by simp
      with 1 have IH: "replaceAll (hash # k) ''(.*?)'' (render ts') = render (replaceTok k ts')"
        by blast
      obtain u where u: "render ts = u @ render ts'" "hash \<notin> set u"
        using Cons False
        by (cases t) (auto simp: isSyntaxCharacter_def)
      show ?thesis
        using Cons False IH u replaceAll_no_hash [OF u(2), of k "''(.*?)''" "render ts'"]
        by (cases t) auto
    qed
  qed
qed

lemma newRegExp_Lit:
  "newRegExp (render [Lit c] @ rest) = map_option ((#) (Char c)) (newRegExp rest)"
proof (cases "isSyntaxCharacter c")
  case True
  then show ?thesis by simp
next
  case False
  then have "c \<noteq> backslash" "c \<noteq> CHR ''^''" "c \<noteq> CHR ''$''" "c \<noteq> CHR ''(''"
    by (auto simp: isSyntaxCharacter_def)
  with False show ?thesis by simp
qed

lemma newRegExp_Group:
  "newRegExp (''(.*?)'' @ rest) = map_option ((#) LazyGroup) (newRegExp rest)"
  by simp

lemma newRegExp_render:
  "newRegExp (render ts @ rest) = map_option ((@) (map nodeOf ts)) (newRegExp rest)"
proof (induction ts)
  case Nil
  then show ?case by (simp add: option.map_ident)
next
  case (Cons t ts)
  show ?case
  proof (cases t)
    case (Lit c)
    have "newRegExp (render (t # ts) @ rest) = newRegExp (render [Lit c] @ (render ts @ rest))"
      using Lit by simp
    also have "\<dots> = map_option ((#) (Char c)) (newRegExp (render ts @ rest))"
      by (rule newRegExp_Lit)
    finally show ?thesis
      using Cons Lit by (simp add: option.map_comp comp_def)
  next
    case Group
    have "newRegExp (render (t # ts) @ rest) = newRegExp (''(.*?)'' @ (render ts @ rest))"
      using Group by simp
    also have "\<dots> = map_option ((#) LazyGroup) (newRegExp (render ts @ rest))"
      by (rule newRegExp_Group)
    finally show ?thesis
      using Cons Group by (simp add: option.map_comp comp_def)
  qed
qed

lemma newRegExp_anchored:
  "newRegExp (''^'' @ render ts @ ''$'') = Some (AssertStart # map nodeOf ts @ [AssertEnd])"
proof -
  have "newRegExp (''^'' @ render ts @ ''$'') = map_option ((#) AssertStart) (newRegExp (render ts @ ''$''))"
    by simp
  also have "\<dots> = map_option ((#) AssertStart) (map_option ((@) (map nodeOf ts)) (newRegExp ''$''))"
    by (simp only: newRegExp_render)
  also have "newRegExp ''$'' = Some [AssertEnd]"
    by simp
  finally show ?thesis by simp
qed

lemma digitRuns_dropWhile: "digitRuns (dropWhile isDigit cs) = digitRuns cs"
  by (induction cs) (auto simp: isDigit_not_hash)

lemma execPlaceholder_None: "execPlaceholder s = None \<Longrightarrow> digitRuns s = []"
  by (induction s) (auto split: if_splits)

lemma execPlaceholder_Some:
  "execPlaceholder s = Some (d, r) \<Longrightarrow> digitRuns s = d # digitRuns r"
  by (induction s) (auto split: if_splits simp: digitRuns_dropWhile)

lemma digitRuns_digits: "d \<in> set (digitRuns s) \<Longrightarrow> d \<noteq> [] \<and> (\<forall>c\<in>set d. isDigit c)"
proof (induction s)
  case Nil
  then show ?case by simp
next
  case (Cons c cs)
  then show ?case
    by (auto split: if_splits dest: set_takeWhileD)
qed

lemma placeholderLoop_None:
  "execPlaceholder rest = None \<Longrightarrow> placeholderLoop rest phs e = (phs, e)"
  by (subst placeholderLoop.simps) (simp only: option.case)

lemma placeholderLoop_Some:
  "execPlaceholder rest = Some (d, r) \<Longrightarrow>
   placeholderLoop rest phs e =
     placeholderLoop r (phs @ [hash # d]) (replaceAll (hash # d) ''(.*?)'' e)"
  by (subst placeholderLoop.simps) (simp only: option.case prod.case)

lemma placeholderLoop_fold:
  "placeholderLoop rest phs e =
     (phs @ map ((#) hash) (digitRuns rest),
      fold (\<lambda>d. replaceAll (hash # d) ''(.*?)'') (digitRuns rest) e)"
proof (induction rest phs e rule: placeholderLoop.induct)
  case (1 rest phs e)
  show ?case
  proof (cases "execPlaceholder rest")
    case None
    then show ?thesis
      by (simp add: placeholderLoop_None execPlaceholder_None)
  next
    case (Some p)
    obtain d r where p: "p = (d, r)" by (cases p)
    have found: "execPlaceholder rest = Some (d, r)"
      using Some p by simp
    have IH: "placeholderLoop r (phs @ [hash # d]) (replaceAll (hash # d) ''(.*?)'' e) =
        ((phs @ [hash # d]) @ map ((#) hash) (digitRuns r),
         fold (\<lambda>d. replaceAll (hash # d) ''(.*?)'') (digitRuns r)
           (replaceAll (hash # d) ''(.*?)'' e))"
      using Some p by (rule "1.IH" [OF _ sym])
    have runs: "digitRuns rest = d # digitRuns r"
      using found by (rule execPlaceholder_Some)
    show ?thesis
      unfolding placeholderLoop_Some [OF found] IH runs by simp
  qed
qed

lemma fold_replaceAll_render:
  "\<forall>d\<in>set ds. \<forall>c\<in>set d. isDigit c \<Longrightarrow>
   fold (\<lambda>d. replaceAll (hash # d) ''(.*?)'') ds (render ts) = render (fold replaceTok ds ts)"
  by (induction ds arbitrary: ts) (simp_all add: replaceAll_render)













lemma placeholderLoop_template:
  "placeholderLoop template [] (escapeTemplate template) =
     (map ((#) hash) (digitRuns template), render (templateTokens template))"
proof -
  have "\<forall>d\<in>set (digitRuns template). \<forall>c\<in>set d. isDigit c"
    using digitRuns_digits by blast
  then show ?thesis
    by (simp add: placeholderLoop_fold escapeTemplate_render fold_replaceAll_render
        templateTokens_def)
qed






lemma popUndefined_snoc:
  "popUndefined (xs @ [x]) = (if x = None then popUndefined xs else xs @ [x])"
  by (subst popUndefined.simps) simp

lemma popUndefined_Nil: "popUndefined [] = []"
  by (subst popUndefined.simps) simp

lemma popUndefined_all_None: "\<forall>x\<in>set xs. x = None \<Longrightarrow> popUndefined xs = []"
  by (induction xs rule: rev_induct) (simp_all add: popUndefined_Nil popUndefined_snoc)

lemma popUndefined_prefix: "prefix (popUndefined xs) xs"
  by (induction xs rule: rev_induct) (simp_all add: popUndefined_Nil popUndefined_snoc)



lemma templatePlaceholders_eq:
  "templatePlaceholders template = map ((#) hash) (digitRuns template)"
  by (simp add: templatePlaceholders_def placeholderLoop_template)

lemma templateRegex_eq:
  "templateRegex template =
     Some (AssertStart # map nodeOf (templateTokens template) @ [AssertEnd])"
  unfolding templateRegex_def placeholderLoop_template snd_conv
  by (rule newRegExp_anchored)


lemma extract_eq:
  assumes "template \<noteq> []" "inputString \<noteq> []" "templateRegex template = Some regex"
  shows "extractArgumentsWithOrder template inputString =
     Inr (map_option (argumentsFrom (templatePlaceholders template))
            (stringMatch regex inputString))"
proof -
  obtain phs e where loop: "placeholderLoop template [] (escapeTemplate template) = (phs, e)"
    by (cases "placeholderLoop template [] (escapeTemplate template)")
  have phs: "templatePlaceholders template = phs"
    by (simp add: templatePlaceholders_def loop)
  have re: "newRegExp (''^'' @ e @ ''$'') = Some regex"
    using assms(3) unfolding templateRegex_def loop snd_conv .
  show ?thesis
    unfolding extractArgumentsWithOrder_def loop prod.case re option.case phs
    using assms(1,2)
    by (cases "stringMatch regex inputString") (simp_all add: argumentsFrom_def)
qed

lemma extract_never_SyntaxError:
  "extractArgumentsWithOrder template inputString \<noteq> Inl SyntaxError"
proof (cases "template = [] \<or> inputString = []")
  case True
  then show ?thesis by (auto simp: extractArgumentsWithOrder_def)
next
  case False
  then show ?thesis
    using extract_eq [OF _ _ templateRegex_eq, of template inputString] by simp
qed

lemma hasPlaceholder_digitRuns: "hasPlaceholder t \<longleftrightarrow> digitRuns t \<noteq> []"
  by (induction t rule: hasPlaceholder.induct) auto

lemma matchNodes_literal:
  "matchNodes (map Char t @ [AssertEnd]) i s = (if s = t then Some (i + length t, []) else None)"
proof (induction t arbitrary: i s)
  case Nil
  then show ?case by simp
next
  case (Cons c t)
  then show ?case by (cases s) auto
qed

lemma execFrom_AssertStart_later: "execFrom (AssertStart # ns) (Suc i) s = None"
  by (induction s arbitrary: i) simp_all

lemma execFrom_AssertStart:
  "execFrom (AssertStart # ns) 0 s = map_option (\<lambda>(e, caps). (0, e, caps)) (matchNodes ns 0 s)"
  by (cases s) (auto simp: execFrom_AssertStart_later split: option.splits)

lemma stringMatch_literal:
  "stringMatch (AssertStart # map Char t @ [AssertEnd]) s = (if s = t then Some [s] else None)"
  by (simp add: stringMatch_def execFrom_AssertStart matchNodes_literal)

lemma templateTokens_no_placeholder:
  "\<not> hasPlaceholder t \<Longrightarrow> templateTokens t = map Lit t"
  by (simp add: templateTokens_def hasPlaceholder_digitRuns)

lemma argumentsFrom_no_placeholder: "argumentsFrom [] matchResult = []"
  unfolding argumentsFrom_def
  by (rule popUndefined_all_None) simp

lemma extract_no_placeholder:
  assumes "template \<noteq> []" "\<not> hasPlaceholder template"
  shows "extractArgumentsWithOrder template inputString =
     (if inputString = template then Inr (Some []) else Inr None)"
proof (cases "inputString = []")
  case True
  then show ?thesis using assms(1) by (auto simp: extractArgumentsWithOrder_def)
next
  case False
  have regex: "templateRegex template = Some (AssertStart # map Char template @ [AssertEnd])"
    using assms(2) by (simp add: templateRegex_eq templateTokens_no_placeholder comp_def)
  have phs: "templatePlaceholders template = []"
    using assms(2) by (simp add: templatePlaceholders_eq hasPlaceholder_digitRuns)
  show ?thesis
    unfolding extract_eq [OF assms(1) False regex] phs
    by (simp add: stringMatch_literal argumentsFrom_no_placeholder)
qed

lemma reloadArgs_eq:
  "extractArgumentsWithOrder (def this)
     (bodyToLatex \<lparr> expandMacro = False, defaultMode = ''math'' \<rparr> (body this)) = Inr r \<Longrightarrow>
   reloadArgs bodyToLatex this =
     Inr (this\<lparr> macroArgs := (case r of None \<Rightarrow> Null | Some as \<Rightarrow> Str (concat (map braced as))) \<rparr>)"
  by (simp add: reloadArgs_def)

lemma toJson_args:
  "j_args (toJson this options0) = (if truthy (macroArgs this) then macroArgs this else j_args options0)"
  by (simp add: toJson_def Let_def)

lemma trim_prefix: "prefix (trim s) (dropWhile isWhiteSpace s)"
proof -
  have "suffix (dropWhile isWhiteSpace (rev (dropWhile isWhiteSpace s)))
      (rev (dropWhile isWhiteSpace s))"
    by (rule suffix_dropWhile)
  then show ?thesis
    unfolding trim_def by (simp add: suffix_to_prefix)
qed

lemma trim_hd: "trim s \<noteq> [] \<Longrightarrow> \<not> isWhiteSpace (hd (trim s))"
proof -
  assume ne: "trim s \<noteq> []"
  obtain zs where zs: "dropWhile isWhiteSpace s = trim s @ zs"
    using trim_prefix [of s] by (auto simp: prefix_def)
  then have "dropWhile isWhiteSpace s \<noteq> []" using ne by simp
  then have "\<not> isWhiteSpace (hd (dropWhile isWhiteSpace s))"
    by (rule hd_dropWhile)
  then show ?thesis using zs ne by simp
qed

lemma trim_last: "trim s \<noteq> [] \<Longrightarrow> \<not> isWhiteSpace (last (trim s))"
proof -
  let ?u = "dropWhile isWhiteSpace (rev (dropWhile isWhiteSpace s))"
  assume "trim s \<noteq> []"
  then have ne: "?u \<noteq> []" by (simp add: trim_def)
  then have "\<not> isWhiteSpace (hd ?u)" by (rule hd_dropWhile)
  then show ?thesis using ne by (simp add: trim_def last_rev)
qed

lemma nth_Suc_in_tl: "Suc i < length xs \<Longrightarrow> xs ! Suc i \<in> set (tl xs)"
  by (cases xs) auto

lemma fillOutput_value:
  "fillOutput phs idx mr out key = Some v \<Longrightarrow>
   out key = Some v \<or> v \<in> set (tl mr)"
proof (induction phs arbitrary: idx out)
  case Nil
  then show ?case by simp
next
  case (Cons p phs)
  from Cons.prems have "fillOutput phs (Suc idx) mr (out(p := nthOpt mr (idx + 1))) key = Some v"
    by simp
  from Cons.IH [OF this]
  show ?case
    by (auto simp: nthOpt_def nth_Suc_in_tl split: if_splits)
qed

lemma argumentsFrom_elem:
  assumes "Some a \<in> set (argumentsFrom phs mr)"
  shows "\<exists>c\<in>set (tl mr). a = trim c"
proof -
  let ?xs = "map (\<lambda>i. map_option trim
      (fillOutput phs 0 mr Map.empty (hash # toString (i + 1)))) [0..<8]"
  have "set (argumentsFrom phs mr) \<subseteq> set ?xs"
    unfolding argumentsFrom_def using popUndefined_prefix [of ?xs] by (rule set_mono_prefix)
  with assms have "Some a \<in> set ?xs" by blast
  then obtain i where "Some a = map_option trim
      (fillOutput phs 0 mr Map.empty (hash # toString (i + 1)))"
    by auto
  then obtain c where c: "fillOutput phs 0 mr Map.empty (hash # toString (i + 1)) = Some c"
    and a: "a = trim c"
    by (cases "fillOutput phs 0 mr Map.empty (hash # toString (i + 1))") auto
  from fillOutput_value [OF c] have "c \<in> set (tl mr)" by simp
  with a show ?thesis by blast
qed

lemma extract_Some:
  assumes "extractArgumentsWithOrder template inputString = Inr (Some args)"
  shows "\<exists>regex matchResult. templateRegex template = Some regex
     \<and> stringMatch regex inputString = Some matchResult
     \<and> args = argumentsFrom (templatePlaceholders template) matchResult"
proof -
  have ne: "template \<noteq> []" "inputString \<noteq> []"
    using assms by (auto simp: extractArgumentsWithOrder_def split: if_splits)
  from assms extract_eq [OF ne templateRegex_eq] show ?thesis
    by (auto simp: templateRegex_eq)
qed

lemma example_trim_extract:
  "extractArgumentsWithOrder (backslash # ''foo{#1}{#2}'') (backslash # ''foo{ a }{b}'')
     = Inr (Some [Some ''a'', Some ''b''])"
  by code_simp

lemma example_trim_captures:
  "map_option (\<lambda>regex. stringMatch regex (backslash # ''foo{ a }{b}''))
     (templateRegex (backslash # ''foo{#1}{#2}''))
   = Some (Some [backslash # ''foo{ a }{b}'', '' a '', ''b''])"
  by code_simp





lemma example_repeated_match:
  "map_option (\<lambda>regex. stringMatch regex ''a+b'') (templateRegex ''#1+#1'')
     = Some (Some [''a+b'', ''a'', ''b''])"
  by code_simp



lemma walk_None:
  "reloadParentsMacros btl None \<sigma> log = Some \<lparr> thrown = None, final = \<sigma>, calls = log \<rparr>"
  by (subst reloadParentsMacros.simps) simp

lemma walk_other:
  "\<not> isMacroNode \<sigma> a \<Longrightarrow>
   reloadParentsMacros btl (Some a) \<sigma> log = reloadParentsMacros btl (parent (\<sigma> a)) \<sigma> log"
  by (subst reloadParentsMacros.simps)
     (simp add: isMacroNode_def split: anyAtom.splits)

lemma walk_macro:
  "obj (\<sigma> a) = MacroAtomObj m \<Longrightarrow> type m = ''macro'' \<Longrightarrow> reloadArgs (btl \<sigma>) m = Inr m' \<Longrightarrow>
   reloadParentsMacros btl (Some a) \<sigma> log =
     reloadParentsMacros btl (parent (\<sigma> a)) (\<sigma>(a := (\<sigma> a)\<lparr> obj := MacroAtomObj m' \<rparr>)) (log @ [a])"
  by (subst reloadParentsMacros.simps) simp

lemma walk_throw:
  "obj (\<sigma> a) = MacroAtomObj m \<Longrightarrow> type m = ''macro'' \<Longrightarrow> reloadArgs (btl \<sigma>) m = Inl e \<Longrightarrow>
   reloadParentsMacros btl (Some a) \<sigma> log =
     Some \<lparr> thrown = Some e, final = \<sigma>, calls = log @ [a] \<rparr>"
  by (subst reloadParentsMacros.simps) simp

lemma extract_Inl:
  "extractArgumentsWithOrder template inputString = Inl e \<Longrightarrow> template = []"
proof -
  assume e: "extractArgumentsWithOrder template inputString = Inl e"
  show ?thesis
  proof (rule ccontr)
    assume ne: "template \<noteq> []"
    show False
    proof (cases "inputString = []")
      case True
      with ne e show False by (simp add: extractArgumentsWithOrder_def)
    next
      case False
      with ne e extract_eq [OF ne False templateRegex_eq] show False by simp
    qed
  qed
qed

lemma reloadArgs_nonempty_def:
  assumes "def m \<noteq> []"
  shows "\<exists>m'. reloadArgs bodyToLatex m = Inr m' \<and> def m' = def m \<and> type m' = type m"
proof (cases "extractArgumentsWithOrder (def m)
    (bodyToLatex \<lparr> expandMacro = False, defaultMode = ''math'' \<rparr> (body m))")
  case (Inl e)
  then show ?thesis using assms extract_Inl by blast
next
  case (Inr r)
  show ?thesis
    unfolding reloadArgs_eq [of m bodyToLatex, OF Inr] by simp
qed

lemma ancestorsWithin_parents:
  "(\<And>a. parent (\<sigma>' a) = parent (\<sigma> a)) \<Longrightarrow>
   ancestorsWithin fuel \<sigma>' p = ancestorsWithin fuel \<sigma> p"
  by (induction fuel \<sigma> p rule: ancestorsWithin.induct) simp_all

lemma ancestorsWithin_det:
  "ancestorsWithin f \<sigma> p = Some xs \<Longrightarrow> ancestorsWithin f' \<sigma> p = Some ys \<Longrightarrow> xs = ys"
proof (induction f \<sigma> p arbitrary: xs ys f' rule: ancestorsWithin.induct)
  case (1 fuel \<sigma>)
  then show ?case by simp
next
  case (2 \<sigma> a)
  then show ?case by simp
next
  case (3 fuel \<sigma> a)
  then show ?case by (cases f') auto
qed

lemma ancestorsWithin_suffix:
  "ancestorsWithin f \<sigma> p = Some (xs @ b # ys) \<Longrightarrow>
   \<exists>f'. ancestorsWithin f' \<sigma> (Some b) = Some (b # ys)"
proof (induction f \<sigma> p arbitrary: xs rule: ancestorsWithin.induct)
  case (1 fuel \<sigma>)
  then show ?case by simp
next
  case (2 \<sigma> a)
  then show ?case by simp
next
  case (3 fuel \<sigma> a)
  show ?case
  proof (cases xs)
    case Nil
    with "3.prems" have "ancestorsWithin (Suc fuel) \<sigma> (Some b) = Some (b # ys)" by auto
    then show ?thesis by blast
  next
    case (Cons x xs')
    with "3.prems" have "ancestorsWithin fuel \<sigma> (parent (\<sigma> a)) = Some (xs' @ b # ys)" by auto
    then show ?thesis by (rule "3.IH")
  qed
qed

lemma ancestorsWithin_distinct:
  "ancestorsWithin f \<sigma> p = Some path \<Longrightarrow> distinct path"
proof (induction f \<sigma> p arbitrary: path rule: ancestorsWithin.induct)
  case (1 fuel \<sigma>)
  then show ?case by simp
next
  case (2 \<sigma> a)
  then show ?case by simp
next
  case (3 fuel \<sigma> a)
  then obtain rest where rest: "ancestorsWithin fuel \<sigma> (parent (\<sigma> a)) = Some rest"
    and path: "path = a # rest"
    by auto
  have "a \<notin> set rest"
  proof
    assume "a \<in> set rest"
    then obtain xs ys where split: "rest = xs @ a # ys"
      by (auto simp: in_set_conv_decomp)
    with rest obtain f' where "ancestorsWithin f' \<sigma> (Some a) = Some (a # ys)"
      using ancestorsWithin_suffix by blast
    moreover have "ancestorsWithin (Suc fuel) \<sigma> (Some a) = Some (a # rest)"
      using rest by simp
    ultimately have "a # ys = a # rest"
      by (rule ancestorsWithin_det)
    with split show False by simp
  qed
  with "3.IH" [OF rest] path show ?case by simp
qed

lemma walk_chain:
  assumes "ancestorsWithin fuel \<sigma> start = Some path"
    and "\<forall>a\<in>set path. \<forall>m. obj (\<sigma> a) = MacroAtomObj m \<and> type m = ''macro'' \<longrightarrow> def m \<noteq> []"
  shows "\<exists>w. reloadParentsMacros bodyToLatex start \<sigma> log = Some w
     \<and> thrown w = None
     \<and> calls w = log @ filter (isMacroNode \<sigma>) path
     \<and> (\<forall>a. parent (final w a) = parent (\<sigma> a))
     \<and> (\<forall>a. a \<notin> set (filter (isMacroNode \<sigma>) path) \<longrightarrow> final w a = \<sigma> a)"
  using assms
proof (induction fuel arbitrary: \<sigma> start path log)
  case 0
  then show ?case by (cases start) (simp_all add: walk_None)
next
  case (Suc fuel)
  show ?case
  proof (cases start)
    case None
    with Suc.prems show ?thesis by (simp add: walk_None)
  next
    case (Some a)
    with Suc.prems(1) obtain rest
      where rest: "ancestorsWithin fuel \<sigma> (parent (\<sigma> a)) = Some rest"
        and path: "path = a # rest"
      by auto
    have nota: "a \<notin> set rest"
      using ancestorsWithin_distinct [OF Suc.prems(1)] path by simp
    show ?thesis
    proof (cases "isMacroNode \<sigma> a")
      case False
      have "\<forall>a\<in>set rest. \<forall>m. obj (\<sigma> a) = MacroAtomObj m \<and> type m = ''macro'' \<longrightarrow> def m \<noteq> []"
        using Suc.prems(2) path by simp
      from Suc.IH [OF rest this, of log] False path Some show ?thesis
        by (simp add: walk_other)
    next
      case True
      then obtain m where m: "obj (\<sigma> a) = MacroAtomObj m" "type m = ''macro''"
        by (auto simp: isMacroNode_def split: anyAtom.splits)
      then have "def m \<noteq> []" using Suc.prems(2) path by simp
      then obtain m' where m': "reloadArgs (bodyToLatex \<sigma>) m = Inr m'"
        "def m' = def m" "type m' = type m"
        using reloadArgs_nonempty_def by blast
      define \<sigma>' where "\<sigma>' = \<sigma>(a := (\<sigma> a)\<lparr> obj := MacroAtomObj m' \<rparr>)"
      have parents: "parent (\<sigma>' b) = parent (\<sigma> b)" for b
        by (simp add: \<sigma>'_def)
      have other: "\<sigma>' b = \<sigma> b" if "b \<noteq> a" for b
        using that by (simp add: \<sigma>'_def)
      have macro: "isMacroNode \<sigma>' b = isMacroNode \<sigma> b" for b
        using m m' True by (cases "b = a") (simp_all add: \<sigma>'_def isMacroNode_def)
      have rest': "ancestorsWithin fuel \<sigma>' (parent (\<sigma>' a)) = Some rest"
        using rest ancestorsWithin_parents [of \<sigma>' \<sigma>, OF parents] by (simp add: parents)
      have defs': "\<forall>b\<in>set rest. \<forall>n. obj (\<sigma>' b) = MacroAtomObj n \<and> type n = ''macro''
          \<longrightarrow> def n \<noteq> []"
      proof (intro ballI allI impI)
        fix b n
        assume b: "b \<in> set rest" and n: "obj (\<sigma>' b) = MacroAtomObj n \<and> type n = ''macro''"
        from b nota have "b \<noteq> a" by blast
        then have "\<sigma>' b = \<sigma> b" by (rule other)
        with n b Suc.prems(2) path show "def n \<noteq> []" by simp
      qed
      have step: "reloadParentsMacros bodyToLatex (Some a) \<sigma> log =
          reloadParentsMacros bodyToLatex (parent (\<sigma> a)) \<sigma>' (log @ [a])"
        unfolding \<sigma>'_def using m m'(1) by (rule walk_macro)
      from Suc.IH [OF rest' defs', of "log @ [a]"]
      obtain w where w: "reloadParentsMacros bodyToLatex (parent (\<sigma>' a)) \<sigma>' (log @ [a]) = Some w"
        "thrown w = None" "calls w = (log @ [a]) @ filter (isMacroNode \<sigma>') rest"
        "\<forall>b. parent (final w b) = parent (\<sigma>' b)"
        "\<forall>b. b \<notin> set (filter (isMacroNode \<sigma>') rest) \<longrightarrow> final w b = \<sigma>' b"
        by blast
      have "isMacroNode \<sigma>' = isMacroNode \<sigma>"
        using macro by (intro ext)
      then have filt: "filter (isMacroNode \<sigma>') rest = filter (isMacroNode \<sigma>) rest"
        by simp
      have frame: "\<forall>b. b \<notin> set (filter (isMacroNode \<sigma>) path) \<longrightarrow> final w b = \<sigma> b"
        using w(5) filt path True other by auto
      have "reloadParentsMacros bodyToLatex start \<sigma> log = Some w"
        using w(1) step Some by (simp add: parents)
      moreover have "calls w = log @ filter (isMacroNode \<sigma>) path"
        using w(3) filt path True by simp
      moreover have "\<forall>b. parent (final w b) = parent (\<sigma> b)"
        using w(4) parents by simp
      ultimately show ?thesis
        using w(2) frame by blast
    qed
  qed
qed

lemma exampleTree_parents:
  "parent (exampleTree 10) = None" "parent (exampleTree 11) = Some 10"
  "parent (exampleTree 12) = Some 11" "parent (exampleTree 13) = Some 12"
  "parent (exampleTree 14) = Some 13"
  by (simp_all add: exampleTree_def)

lemma exampleTree_macros:
  "\<not> isMacroNode exampleTree 10" "isMacroNode exampleTree 11" "\<not> isMacroNode exampleTree 12"
  "isMacroNode exampleTree 13" "\<not> isMacroNode exampleTree 14"
  by (simp_all add: exampleTree_def isMacroNode_def exampleNode_def MacroAtom_def)

lemma exampleTree_chain_12: "ancestorsWithin 3 exampleTree (Some 12) = Some [12, 11, 10]"
  by code_simp

lemma exampleTree_chain_13: "ancestorsWithin 4 exampleTree (Some 13) = Some [13, 12, 11, 10]"
  by code_simp

lemma exampleTree_defs:
  "\<forall>m. obj (exampleTree a) = MacroAtomObj m \<and> type m = ''macro'' \<longrightarrow> def m \<noteq> []"
  by (auto simp: exampleTree_def exampleNode_def MacroAtom_def)










lemma numbered_nth: "i < n \<Longrightarrow> numbered n ! i = hash # toString (Suc i)"
  by (simp add: numbered_def)

lemma length_numbered: "length (numbered n) = n"
  by (simp add: numbered_def)










































section \<open>Errors of the template matcher\<close>

text \<open>
  Claim C3. The matcher raises the error \<^verbatim>\<open>No template provided\<close> exactly when the
  template is empty, and \<^verbatim>\<open>reloadArgs\<close> lets that error through exactly when the
  node's \<^verbatim>\<open>def\<close> is empty. With a non-empty template an empty body gives \<^verbatim>\<open>null\<close>,
  the no-match value, not an error, and no body makes the matcher raise anything.
\<close>

theorem invalid_template_iff_empty:
  "(extractArgumentsWithOrder template inputString = Inl (Error ''No template provided'')
      \<longleftrightarrow> template = [])
   \<and> (reloadArgs bodyToLatex this = Inl (Error ''No template provided'')
      \<longleftrightarrow> def this = [])
   \<and> (template \<noteq> [] \<longrightarrow> extractArgumentsWithOrder template [] = Inr None)
   \<and> (template \<noteq> [] \<longrightarrow> (\<exists>r. extractArgumentsWithOrder template inputString = Inr r))"
proof -
  have matcher: "extractArgumentsWithOrder t i = Inl (Error ''No template provided'')
      \<longleftrightarrow> t = []" for t i
    by (auto simp: extractArgumentsWithOrder_def split: prod.splits option.splits)
  have "reloadArgs bodyToLatex this = Inl (Error ''No template provided'')
      \<longleftrightarrow> def this = []"
    using matcher [of "def this"]
    by (auto simp: reloadArgs_def Let_def split: sum.splits)
  moreover have "template \<noteq> [] \<longrightarrow> extractArgumentsWithOrder template [] = Inr None"
    by (simp add: extractArgumentsWithOrder_def)
  moreover have "template \<noteq> [] \<longrightarrow> (\<exists>r. extractArgumentsWithOrder template inputString = Inr r)"
    using extract_Inl [of template inputString]
    by (cases "extractArgumentsWithOrder template inputString") auto
  ultimately show ?thesis
    using matcher by blast
qed

theorem invalid_template_iff_empty_witness:
  "''constant'' \<noteq> [] \<and> extractArgumentsWithOrder ''constant'' [] = Inr None
   \<and> reloadArgs textOfBody (exampleNode [] Null ''constant'')
       = Inl (Error ''No template provided'')"
  using invalid_template_iff_empty
    [of "''constant''" "[]" textOfBody "exampleNode [] Null ''constant''"]
  by (simp add: exampleNode_def MacroAtom_def)

section \<open>Serialization\<close>

text \<open>
  Claim C6. \<^verbatim>\<open>_serialize\<close> returns the serialization of the body when the caller's
  \<^verbatim>\<open>expandMacro\<close> and the node's \<^verbatim>\<open>expand\<close> are both true. Otherwise it returns the
  command followed by the argument encoding, and the command alone when the encoding is
  \<^verbatim>\<open>null\<close>.
\<close>

theorem serialize_cases:
  "(expandMacro options \<and> expand this \<longrightarrow>
      serialize bodyToLatex this options = bodyToLatex options (body this))
   \<and> (\<not> (expandMacro options \<and> expand this) \<longrightarrow>
        (\<forall>s. macroArgs this = Str s \<longrightarrow>
           serialize bodyToLatex this options = command this @ s)
        \<and> (macroArgs this = Null \<longrightarrow> serialize bodyToLatex this options = command this))"
  by (simp add: serialize_def orEmpty_def)

theorem serialize_cases_witness:
  "\<not> (expandMacro \<lparr> expandMacro = True, defaultMode = ''math'' \<rparr>
        \<and> expand (exampleNode ''#1+1'' (Str ''{a}'') ''a+1''))
   \<and> macroArgs (exampleNode ''#1+1'' (Str ''{a}'') ''a+1'') = Str ''{a}''
   \<and> serialize textOfBody (exampleNode ''#1+1'' (Str ''{a}'') ''a+1'')
        \<lparr> expandMacro = True, defaultMode = ''math'' \<rparr> = backslash # ''foo{a}''"
  using serialize_cases [of "\<lparr> expandMacro = True, defaultMode = ''math'' \<rparr>"
      "exampleNode ''#1+1'' (Str ''{a}'') ''a+1''" textOfBody]
  by (simp add: exampleNode_def MacroAtom_def)

section \<open>Styles\<close>

text \<open>
  Claim C8. \<^verbatim>\<open>applyStyle\<close> hands to the style routine of the base class an object that
  has no attribute besides \<^verbatim>\<open>color\<close> and \<^verbatim>\<open>backgroundColor\<close>, each with the value the
  caller gave; every other attribute of the caller's style is absent from it.
\<close>

theorem applyStyle_forwards_colors_only:
  "applyStyle superApplyStyle style0 options this =
     superApplyStyle (allowedStyle style0) options this
   \<and> dom (allowedStyle style0) \<subseteq> {''color'', ''backgroundColor''}
   \<and> (\<forall>k v. allowedStyle style0 k = Some v \<longrightarrow> style0 k = Some v)
   \<and> (\<forall>k. k \<noteq> ''color'' \<and> k \<noteq> ''backgroundColor'' \<longrightarrow> allowedStyle style0 k = None)"
  by (auto simp: applyStyle_def allowedStyle_def Let_def attrTruthy_def
           split: if_splits option.splits)

theorem applyStyle_forwards_colors_only_witness:
  "''fontWeight'' \<noteq> ''color'' \<and> ''fontWeight'' \<noteq> ''backgroundColor''
   \<and> allowedStyle [''color'' \<mapsto> ''red'', ''fontWeight'' \<mapsto> ''bold''] ''fontWeight'' = None
   \<and> allowedStyle [''color'' \<mapsto> ''red'', ''fontWeight'' \<mapsto> ''bold''] ''color'' = Some ''red''
   \<and> [''color'' \<mapsto> ''red'', ''fontWeight'' \<mapsto> ''bold''] ''color'' = Some ''red''"
  using applyStyle_forwards_colors_only
    [of "\<lambda>st (opts :: unit) (n :: string macroAtom). n"
        "[''color'' \<mapsto> ''red'', ''fontWeight'' \<mapsto> ''bold'']" "()"
        "exampleNode ''#1'' Null ''a''"]
  by (simp add: allowedStyle_def attrTruthy_def)


section \<open>Templates without placeholders\<close>

text \<open>
  Claim C4. For a non-empty template in which no \<^verbatim>\<open>#\<close> is followed by a digit, the
  matcher succeeds on the body equal to the template, with an empty array of arguments,
  and returns \<^verbatim>\<open>null\<close> on every other body; \<^verbatim>\<open>reloadArgs\<close> on a node whose serialized
  body differs from such a template sets \<^verbatim>\<open>_macroArgs\<close> to \<^verbatim>\<open>null\<close>.
\<close>

theorem no_placeholder_template:
  assumes "template \<noteq> []" and "\<not> hasPlaceholder template"
  shows "extractArgumentsWithOrder template template = Inr (Some [])
    \<and> (inputString \<noteq> template \<longrightarrow> extractArgumentsWithOrder template inputString = Inr None)
    \<and> (def this = template
         \<and> bodyToLatex \<lparr> expandMacro = False, defaultMode = ''math'' \<rparr> (body this) \<noteq> template
       \<longrightarrow> reloadArgs bodyToLatex this = Inr (this\<lparr> macroArgs := Null \<rparr>))"
  using assms by (auto simp: extract_no_placeholder reloadArgs_eq)

theorem no_placeholder_template_witness:
  "''constant'' \<noteq> [] \<and> \<not> hasPlaceholder ''constant''
   \<and> extractArgumentsWithOrder ''constant'' ''constant'' = Inr (Some [])
   \<and> ''constant2'' \<noteq> ''constant''
   \<and> extractArgumentsWithOrder ''constant'' ''constant2'' = Inr None
   \<and> macroArgs (exampleNode ''constant'' (Str ''{a}'') ''constant2'') = Str ''{a}''
   \<and> reloadArgs textOfBody (exampleNode ''constant'' (Str ''{a}'') ''constant2'') =
       Inr ((exampleNode ''constant'' (Str ''{a}'') ''constant2'')\<lparr> macroArgs := Null \<rparr>)"
proof -
  have ne: "''constant'' \<noteq> []" by simp
  have np: "\<not> hasPlaceholder ''constant''" by (simp add: isDigit_def)
  have d: "def (exampleNode ''constant'' (Str ''{a}'') ''constant2'') = ''constant''"
    and b: "textOfBody \<lparr> expandMacro = False, defaultMode = ''math'' \<rparr>
      (body (exampleNode ''constant'' (Str ''{a}'') ''constant2'')) \<noteq> ''constant''"
    and m: "macroArgs (exampleNode ''constant'' (Str ''{a}'') ''constant2'') = Str ''{a}''"
    by (simp_all add: exampleNode_def MacroAtom_def textOfBody_def)
  show ?thesis
    using no_placeholder_template [OF ne np, of "''constant2''"
        "exampleNode ''constant'' (Str ''{a}'') ''constant2''" textOfBody] ne np d b m
    by simp
qed

section \<open>Zero recovered arguments\<close>

text \<open>
  Claim C9. When the matcher returns an empty array, as for a template without
  placeholders whose serialized body is the template itself, \<^verbatim>\<open>reloadArgs\<close> sets
  \<^verbatim>\<open>_macroArgs\<close> to the empty string, not to \<^verbatim>\<open>null\<close>; \<^verbatim>\<open>toJson\<close> then leaves \<^verbatim>\<open>args\<close>
  out of the snapshot, as it does when \<^verbatim>\<open>_macroArgs\<close> is \<^verbatim>\<open>null\<close>.
\<close>

theorem empty_arguments_give_empty_string:
  assumes "extractArgumentsWithOrder (def this)
     (bodyToLatex \<lparr> expandMacro = False, defaultMode = ''math'' \<rparr> (body this)) = Inr (Some [])"
  shows "\<exists>this'. reloadArgs bodyToLatex this = Inr this'
     \<and> macroArgs this' = Str [] \<and> macroArgs this' \<noteq> Null
     \<and> j_args (toJson this' options0) = j_args options0
     \<and> j_args (toJson (this'\<lparr> macroArgs := Null \<rparr>) options0) = j_args options0"
  using assms by (simp add: reloadArgs_eq toJson_args truthy_def)

theorem empty_arguments_give_empty_string_witness:
  "extractArgumentsWithOrder (def (exampleNode ''constant'' Null ''constant''))
     (textOfBody \<lparr> expandMacro = False, defaultMode = ''math'' \<rparr>
        (body (exampleNode ''constant'' Null ''constant''))) = Inr (Some [])
   \<and> (\<exists>this'. reloadArgs textOfBody (exampleNode ''constant'' Null ''constant'') = Inr this'
        \<and> macroArgs this' = Str [])"
proof -
  have np: "\<not> hasPlaceholder ''constant''" by (simp add: isDigit_def)
  have m: "extractArgumentsWithOrder (def (exampleNode ''constant'' Null ''constant''))
     (textOfBody \<lparr> expandMacro = False, defaultMode = ''math'' \<rparr>
        (body (exampleNode ''constant'' Null ''constant''))) = Inr (Some [])"
    using extract_no_placeholder [OF _ np, of "''constant''"]
    by (simp add: exampleNode_def MacroAtom_def textOfBody_def)
  show ?thesis
    using empty_arguments_give_empty_string
      [of "exampleNode ''constant'' Null ''constant''" textOfBody, OF m] m
    by blast
qed

section \<open>Trimming\<close>

text \<open>
  Claim C7. Every argument the matcher returns is the \<^verbatim>\<open>trim\<close> of a captured string,
  so it neither starts nor ends with white space, and \<^verbatim>\<open>reloadArgs\<close> writes the
  arguments in braces one after the other. For the template \<^verbatim>\<open>\foo{#1}{#2}\<close> and the
  body \<^verbatim>\<open>\foo{ a }{b}\<close> the captures are \<^verbatim>\<open>" a "\<close> and \<^verbatim>\<open>"b"\<close>, and \<^verbatim>\<open>reloadArgs\<close>
  gives \<^verbatim>\<open>{a}{b}\<close>.
\<close>

theorem captured_arguments_are_trimmed:
  "(extractArgumentsWithOrder template inputString = Inr (Some args) \<longrightarrow>
      (\<exists>regex matchResult. templateRegex template = Some regex
         \<and> stringMatch regex inputString = Some matchResult
         \<and> (\<forall>a. Some a \<in> set args \<longrightarrow>
               (\<exists>c\<in>set (tl matchResult). a = trim c)
               \<and> (a = [] \<or> \<not> isWhiteSpace (hd a) \<and> \<not> isWhiteSpace (last a))))
      \<and> (def this = template
           \<and> bodyToLatex \<lparr> expandMacro = False, defaultMode = ''math'' \<rparr> (body this) = inputString
         \<longrightarrow> reloadArgs bodyToLatex this =
               Inr (this\<lparr> macroArgs := Str (concat (map braced args)) \<rparr>)))
   \<and> map_option (\<lambda>regex. stringMatch regex (backslash # ''foo{ a }{b}''))
        (templateRegex (backslash # ''foo{#1}{#2}''))
       = Some (Some [backslash # ''foo{ a }{b}'', '' a '', ''b''])
   \<and> reloadArgs textOfBody
        (exampleNode (backslash # ''foo{#1}{#2}'') Null (backslash # ''foo{ a }{b}'')) =
       Inr ((exampleNode (backslash # ''foo{#1}{#2}'') Null (backslash # ''foo{ a }{b}''))
              \<lparr> macroArgs := Str ''{a}{b}'' \<rparr>)"
proof (intro conjI impI)
  assume ex: "extractArgumentsWithOrder template inputString = Inr (Some args)"
  then obtain regex matchResult where re: "templateRegex template = Some regex"
    and mr: "stringMatch regex inputString = Some matchResult"
    and args: "args = argumentsFrom (templatePlaceholders template) matchResult"
    using extract_Some by blast
  have "(\<exists>c\<in>set (tl matchResult). a = trim c)
      \<and> (a = [] \<or> \<not> isWhiteSpace (hd a) \<and> \<not> isWhiteSpace (last a))"
    if "Some a \<in> set args" for a
  proof -
    from that args obtain c where c: "c \<in> set (tl matchResult)" and a: "a = trim c"
      using argumentsFrom_elem by blast
    then show ?thesis using trim_hd [of c] trim_last [of c] by auto
  qed
  with re mr show "\<exists>regex matchResult. templateRegex template = Some regex
         \<and> stringMatch regex inputString = Some matchResult
         \<and> (\<forall>a. Some a \<in> set args \<longrightarrow>
               (\<exists>c\<in>set (tl matchResult). a = trim c)
               \<and> (a = [] \<or> \<not> isWhiteSpace (hd a) \<and> \<not> isWhiteSpace (last a)))"
    by blast
next
  assume "extractArgumentsWithOrder template inputString = Inr (Some args)"
    and "def this = template
      \<and> bodyToLatex \<lparr> expandMacro = False, defaultMode = ''math'' \<rparr> (body this) = inputString"
  then show "reloadArgs bodyToLatex this =
      Inr (this\<lparr> macroArgs := Str (concat (map braced args)) \<rparr>)"
    by (simp add: reloadArgs_eq)
next
  show "map_option (\<lambda>regex. stringMatch regex (backslash # ''foo{ a }{b}''))
        (templateRegex (backslash # ''foo{#1}{#2}''))
       = Some (Some [backslash # ''foo{ a }{b}'', '' a '', ''b''])"
    by (rule example_trim_captures)
next
  have "extractArgumentsWithOrder
      (def (exampleNode (backslash # ''foo{#1}{#2}'') Null (backslash # ''foo{ a }{b}'')))
      (textOfBody \<lparr> expandMacro = False, defaultMode = ''math'' \<rparr>
         (body (exampleNode (backslash # ''foo{#1}{#2}'') Null (backslash # ''foo{ a }{b}''))))
      = Inr (Some [Some ''a'', Some ''b''])"
    using example_trim_extract by (simp add: exampleNode_def MacroAtom_def textOfBody_def)
  from reloadArgs_eq [of "exampleNode (backslash # ''foo{#1}{#2}'') Null
      (backslash # ''foo{ a }{b}'')" textOfBody, OF this]
  show "reloadArgs textOfBody
        (exampleNode (backslash # ''foo{#1}{#2}'') Null (backslash # ''foo{ a }{b}'')) =
       Inr ((exampleNode (backslash # ''foo{#1}{#2}'') Null (backslash # ''foo{ a }{b}''))
              \<lparr> macroArgs := Str ''{a}{b}'' \<rparr>)"
    by (simp add: braced_def)
qed

theorem captured_arguments_are_trimmed_witness:
  "extractArgumentsWithOrder (backslash # ''foo{#1}{#2}'') (backslash # ''foo{ a }{b}'')
     = Inr (Some [Some ''a'', Some ''b''])
   \<and> (\<exists>regex matchResult. templateRegex (backslash # ''foo{#1}{#2}'') = Some regex
         \<and> stringMatch regex (backslash # ''foo{ a }{b}'') = Some matchResult
         \<and> (\<forall>a. Some a \<in> set [Some ''a'', Some ''b''] \<longrightarrow>
               (\<exists>c\<in>set (tl matchResult). a = trim c)))"
  using captured_arguments_are_trimmed [of "backslash # ''foo{#1}{#2}''"
      "backslash # ''foo{ a }{b}''" "[Some ''a'', Some ''b'']"
      "exampleNode (backslash # ''foo{#1}{#2}'') Null (backslash # ''foo{ a }{b}'')" textOfBody]
    example_trim_extract
  by blast

section \<open>Snapshots\<close>




section \<open>The walk over the ancestors\<close>

text \<open>
  Claim C2, where it fails. In the tree \<^verbatim>\<open>root\<close>, \<^verbatim>\<open>macroA\<close>, \<^verbatim>\<open>plainNode\<close>, \<^verbatim>\<open>macroB\<close>,
  \<^verbatim>\<open>editedLeaf\<close> the walk started at \<^verbatim>\<open>plainNode\<close> goes up through \<^verbatim>\<open>macroA\<close> to the
  root: it calls \<^verbatim>\<open>reloadArgs\<close> on \<^verbatim>\<open>macroA\<close> only, not on \<^verbatim>\<open>macroB\<close>, which is below
  \<^verbatim>\<open>plainNode\<close>.
\<close>

theorem walk_from_plainNode_misses_macroB:
  "parent (exampleTree 14) = Some 13 \<and> parent (exampleTree 13) = Some 12
   \<and> parent (exampleTree 12) = Some 11 \<and> parent (exampleTree 11) = Some 10
   \<and> parent (exampleTree 10) = None
   \<and> isMacroNode exampleTree 11 \<and> isMacroNode exampleTree 13
   \<and> map_option calls (reloadParentsMacros storeTextOfBody (Some 12) exampleTree []) = Some [11]
   \<and> map_option calls (reloadParentsMacros storeTextOfBody (Some 12) exampleTree [])
        \<noteq> Some [13, 11]"
proof -
  have "\<forall>a\<in>set [12, 11, 10]. \<forall>m. obj (exampleTree a) = MacroAtomObj m \<and> type m = ''macro''
      \<longrightarrow> def m \<noteq> []"
    using exampleTree_defs by blast
  from walk_chain [OF exampleTree_chain_12 this, of storeTextOfBody "[]"]
  obtain w where r: "reloadParentsMacros storeTextOfBody (Some 12) exampleTree [] = Some w"
    and c: "calls w = filter (isMacroNode exampleTree) [12, 11, 10]"
    by auto
  have "calls w = [11]"
    using c by (simp add: exampleTree_macros)
  then show ?thesis
    unfolding r by (simp add: exampleTree_parents exampleTree_macros)
qed

text \<open>
  Claim C2, amended. When the chain of parents from the start node is finite and no
  macro node on it has an empty \<^verbatim>\<open>def\<close>, the walk returns without exception, and the
  calls of \<^verbatim>\<open>reloadArgs\<close> are exactly the macro nodes of the chain, the start node
  included, each once, from the nearest to the farthest, and no other node. The walk
  changes no \<^verbatim>\<open>parent\<close> link and no node besides those. In the example tree the walk
  started at \<^verbatim>\<open>macroB\<close> calls \<^verbatim>\<open>reloadArgs\<close> on \<^verbatim>\<open>macroB\<close>, then on \<^verbatim>\<open>macroA\<close>.
\<close>

theorem walk_reloads_macro_ancestors:
  assumes "ancestorsWithin fuel \<sigma> start = Some path"
    and "\<forall>a\<in>set path. \<forall>m. obj (\<sigma> a) = MacroAtomObj m \<and> type m = ''macro'' \<longrightarrow> def m \<noteq> []"
  shows "\<exists>w. reloadParentsMacros bodyToLatex start \<sigma> [] = Some w
     \<and> thrown w = None
     \<and> calls w = filter (isMacroNode \<sigma>) path
     \<and> distinct (calls w)
     \<and> (\<forall>a\<in>set (calls w). isMacroNode \<sigma> a)
     \<and> (\<forall>a\<in>set path. isMacroNode \<sigma> a \<longrightarrow> a \<in> set (calls w))
     \<and> (\<forall>a. parent (final w a) = parent (\<sigma> a))
     \<and> (\<forall>a. a \<notin> set (calls w) \<longrightarrow> final w a = \<sigma> a)"
proof -
  from walk_chain [OF assms, of bodyToLatex "[]"]
  obtain w where w: "reloadParentsMacros bodyToLatex start \<sigma> [] = Some w"
    "thrown w = None" "calls w = filter (isMacroNode \<sigma>) path"
    "\<forall>a. parent (final w a) = parent (\<sigma> a)"
    "\<forall>a. a \<notin> set (filter (isMacroNode \<sigma>) path) \<longrightarrow> final w a = \<sigma> a"
    by auto
  have "distinct path" using assms(1) by (rule ancestorsWithin_distinct)
  then have "distinct (calls w)" using w(3) by simp
  with w show ?thesis by auto
qed

theorem walk_reloads_macro_ancestors_witness:
  "ancestorsWithin 4 exampleTree (Some 13) = Some [13, 12, 11, 10]
   \<and> obj (exampleTree 13) = MacroAtomObj (exampleNode ''#1'' (Str ''{x}'') ''y'')
   \<and> def (exampleNode ''#1'' (Str ''{x}'') ''y'') \<noteq> []
   \<and> obj (exampleTree 12) = OtherAtom ''group''
   \<and> obj (exampleTree 11) = MacroAtomObj (exampleNode ''#1+1'' (Str ''{x}'') ''y+1'')
   \<and> def (exampleNode ''#1+1'' (Str ''{x}'') ''y+1'') \<noteq> []
   \<and> obj (exampleTree 10) = OtherAtom ''root''
   \<and> (\<exists>w. reloadParentsMacros storeTextOfBody (Some 13) exampleTree [] = Some w
        \<and> thrown w = None \<and> calls w = [13, 11])"
proof -
  have defs: "\<forall>a\<in>set [13, 12, 11, 10]. \<forall>m. obj (exampleTree a) = MacroAtomObj m \<and> type m = ''macro''
      \<longrightarrow> def m \<noteq> []"
    using exampleTree_defs by blast
  from walk_reloads_macro_ancestors [OF exampleTree_chain_13 defs, of storeTextOfBody]
  obtain w where "reloadParentsMacros storeTextOfBody (Some 13) exampleTree [] = Some w"
    "thrown w = None" "calls w = filter (isMacroNode exampleTree) [13, 12, 11, 10]"
    by auto
  then have "\<exists>w. reloadParentsMacros storeTextOfBody (Some 13) exampleTree [] = Some w
        \<and> thrown w = None \<and> calls w = [13, 11]"
    by (simp add: exampleTree_macros)
  moreover have "obj (exampleTree 13) = MacroAtomObj (exampleNode ''#1'' (Str ''{x}'') ''y'')"
    "def (exampleNode ''#1'' (Str ''{x}'') ''y'') \<noteq> []"
    "obj (exampleTree 12) = OtherAtom ''group''"
    "obj (exampleTree 11) = MacroAtomObj (exampleNode ''#1+1'' (Str ''{x}'') ''y+1'')"
    "def (exampleNode ''#1+1'' (Str ''{x}'') ''y+1'') \<noteq> []"
    "obj (exampleTree 10) = OtherAtom ''root''"
    by (simp_all add: exampleTree_def exampleNode_def MacroAtom_def)
  ultimately show ?thesis
    using exampleTree_chain_13 by blast
qed

section \<open>Repeated placeholders\<close>




section \<open>Reconciliation without an edit\<close>




end
